theory Spec2Isabelle
  imports Main "HOL-Library.Word"
begin

section \<open>Data model\<close>

text \<open>
  A Python \<open>str\<close> is a sequence of Unicode code points, a \<open>bytes\<close> value a sequence of
  octets. String literals of the source are written with \<open>u\<close> where they are ASCII; the
  bullet of the prompt is the code point U+2022.
\<close>

type_synonym str = "nat list"
type_synonym bytes = "8 word list"

definition u :: "string \<Rightarrow> str" where
  "u s = map of_char s"

text \<open>
  Exceptions are values. The first three are raised by the interpreter on the
  attribute read, the subscript and the argument check of the source; every other
  exception comes out of a library call and is carried as it is.
\<close>

datatype error =
    AttributeError
  | IndexError
  | TypeError
  | DecodeError str
  | OCRError str
  | LLMRequestError str
  | JSONDecodeError str

text \<open>The uploaded file: a byte buffer with a read position and an optional \<open>name\<close> attribute.\<close>

record file_like =
  name :: "str option"
  buffer :: bytes
  pos :: nat

text \<open>A Pillow image: its mode and its raster.\<close>

record image =
  mode :: str
  pixels :: bytes

text \<open>The keyword arguments of \<open>client.chat.completions.create\<close> and its reply.\<close>

record chat_message =
  role :: str
  content :: "str option"

record chat_request =
  model :: str
  messages :: "chat_message list"
  temperature :: int

record choice =
  message :: chat_message

record chat_completion =
  choices :: "choice list"

text \<open>
  The values \<open>json.loads\<close> returns; a dict keeps its keys in insertion order. A float is
  given by its significand and binary exponent.
\<close>

datatype json =
    JNull
  | JBool bool
  | JInt int
  | JFloat int int
  | JStr str
  | JList "json list"
  | JDict "(str \<times> json) list"

section \<open>External collaborators\<close>

text \<open>
  The libraries the module calls are parameters of the model: PyMuPDF (\<open>fitz.open\<close>,
  \<open>page.get_text\<close>), pdf2image (\<open>convert_from_bytes\<close>), Pillow (\<open>Image.open\<close>,
  \<open>Image.convert\<close>), pytesseract (\<open>image_to_string\<close>), the OpenAI client and
  \<open>json.loads\<close>. Each returns a value or raises. \<open>unicode_lower s i\<close> is what the
  interpreter's \<open>str.lower\<close> puts for the code point at index \<open>i\<close> of \<open>s\<close> when that code
  point is beyond ASCII (the mapping of capital sigma depends on its neighbours).
\<close>

record 'p env =
  fitz_open :: "bytes \<Rightarrow> error + 'p list"
  page_get_text :: "'p \<Rightarrow> error + str"
  convert_from_bytes :: "bytes \<Rightarrow> error + image list"
  Image_open :: "bytes \<Rightarrow> error + image"
  Image_convert :: "image \<Rightarrow> str \<Rightarrow> error + image"
  image_to_string :: "image \<Rightarrow> error + str"
  chat_completions_create :: "chat_request \<Rightarrow> error + chat_completion"
  json_loads :: "str \<Rightarrow> error + json"
  unicode_lower :: "str \<Rightarrow> nat \<Rightarrow> str"

text \<open>Every call of a third-party library is recorded, in the order the calls are made.\<close>

datatype 'p event =
    FitzOpen bytes
  | GetText 'p
  | ConvertFromBytes bytes
  | ImageOpen bytes
  | ImageConvert image str
  | ImageToString image
  | ChatCreate chat_request

type_synonym ('p, 'a) io = "'p event list \<times> (error + 'a)"

definition ret :: "'a \<Rightarrow> ('p, 'a) io" where
  "ret x = ([], Inr x)"

definition raise :: "error \<Rightarrow> ('p, 'a) io" where
  "raise e = ([], Inl e)"

definition call :: "'p event \<Rightarrow> error + 'a \<Rightarrow> ('p, 'a) io" where
  "call ev r = ([ev], r)"

definition io_bind :: "('p, 'a) io \<Rightarrow> ('a \<Rightarrow> ('p, 'b) io) \<Rightarrow> ('p, 'b) io" where
  "io_bind m k =
     (case m of
        (t, Inl e) \<Rightarrow> (t, Inl e)
      | (t, Inr x) \<Rightarrow> (case k x of (t', r) \<Rightarrow> (t @ t', r)))"

section \<open>String and file primitives of the interpreter\<close>

definition isspace :: "nat \<Rightarrow> bool" where
  "isspace c \<longleftrightarrow>
     (9 \<le> c \<and> c \<le> 13) \<or> (28 \<le> c \<and> c \<le> 32) \<or> c = 133 \<or> c = 160 \<or> c = 5760
     \<or> (8192 \<le> c \<and> c \<le> 8202) \<or> c = 8232 \<or> c = 8233 \<or> c = 8239 \<or> c = 8287
     \<or> c = 12288"

definition str_strip :: "str \<Rightarrow> str" where
  "str_strip s = rev (dropWhile isspace (rev (dropWhile isspace s)))"

text \<open>
  \<open>str.lower\<close>: an ASCII capital goes to its small letter, every other ASCII code point
  stays, a code point beyond ASCII is mapped by the interpreter's tables. \<open>lower_from\<close>
  walks the rest of the string \<open>s\<close> from index \<open>i\<close>.
\<close>

fun lower_from :: "'p env \<Rightarrow> str \<Rightarrow> nat \<Rightarrow> str \<Rightarrow> str" where
  "lower_from env s i [] = []"
| "lower_from env s i (c # cs) =
     (if c < 128 then [if 65 \<le> c \<and> c \<le> 90 then c + 32 else c] else unicode_lower env s i)
     @ lower_from env s (Suc i) cs"

definition str_lower :: "'p env \<Rightarrow> str \<Rightarrow> str" where
  "str_lower env s = lower_from env s 0 s"

definition endswith :: "str \<Rightarrow> str \<Rightarrow> bool" where
  "endswith s suf \<longleftrightarrow> length suf \<le> length s \<and> drop (length s - length suf) s = suf"

fun str_join :: "str \<Rightarrow> str list \<Rightarrow> str" where
  "str_join sep [] = []"
| "str_join sep [x] = x"
| "str_join sep (x # y # ys) = x @ sep @ str_join sep (y # ys)"

definition BytesIO :: "bytes \<Rightarrow> file_like" where
  "BytesIO b = \<lparr>name = None, buffer = b, pos = 0\<rparr>"

definition read :: "file_like \<Rightarrow> bytes \<times> file_like" where
  "read f = (drop (pos f) (buffer f), f\<lparr>pos := max (pos f) (length (buffer f))\<rparr>)"

section \<open>The module\<close>

text \<open>
  The functions of \<open>invoice_extraction_app.py\<close>, each with the collaborators as its first
  argument. A function returns the library calls it made and its value or the exception
  that ended it; \<open>io_bind\<close> is the semicolon: an exception ends the sequence. The
  page set-up at the bottom of the module is presentation and is not part of the model.
\<close>

subsection \<open>\<open>extract_text_from_pdf\<close>\<close>

text \<open>
  \<open>pages_loop\<close> is the \<open>for page in doc\<close> loop with its accumulator \<open>text\<close>. Leaving the
  \<open>with\<close> block closes the document, which nothing later observes.
\<close>

fun pages_loop :: "'p env \<Rightarrow> 'p list \<Rightarrow> str \<Rightarrow> ('p, str) io" where
  "pages_loop env [] text = ret text"
| "pages_loop env (page # rest) text =
     io_bind (call (GetText page) (page_get_text env page))
       (\<lambda>page_text. pages_loop env rest (text @ page_text))"

definition extract_text_from_pdf :: "'p env \<Rightarrow> bytes \<Rightarrow> ('p, str) io" where
  "extract_text_from_pdf env bytes_data =
     io_bind (call (FitzOpen bytes_data) (fitz_open env bytes_data))
       (\<lambda>doc. pages_loop env doc [])"

subsection \<open>\<open>preprocess_image\<close> and \<open>perform_ocr_on_images\<close>\<close>

text \<open>\<open>ocr_loop\<close> is the \<open>for img in images\<close> loop; \<open>texts\<close> is the list it appends to.\<close>

definition preprocess_image :: "'p env \<Rightarrow> image \<Rightarrow> ('p, image) io" where
  "preprocess_image env img =
     io_bind
       (if mode img = u ''P''
        then call (ImageConvert img (u ''RGBA'')) (Image_convert env img (u ''RGBA''))
        else ret img)
       (\<lambda>img'. io_bind (call (ImageConvert img' (u ''L'')) (Image_convert env img' (u ''L'')))
          (\<lambda>gray. ret gray))"

fun ocr_loop :: "'p env \<Rightarrow> image list \<Rightarrow> str list \<Rightarrow> ('p, str list) io" where
  "ocr_loop env [] texts = ret texts"
| "ocr_loop env (img # rest) texts =
     io_bind (preprocess_image env img)
       (\<lambda>proc. io_bind (call (ImageToString proc) (image_to_string env proc))
          (\<lambda>text. ocr_loop env rest (texts @ [text])))"

definition perform_ocr_on_images :: "'p env \<Rightarrow> image list \<Rightarrow> ('p, str) io" where
  "perform_ocr_on_images env images =
     io_bind (ocr_loop env images []) (\<lambda>texts. ret (str_join (u ''\<newline>'') texts))"

subsection \<open>\<open>load_and_extract_text\<close>\<close>

text \<open>
  The file is read before its name is looked at, so the file comes back with its
  position moved also when it has no \<open>name\<close>.
\<close>

definition load_and_extract_text :: "'p env \<Rightarrow> file_like \<Rightarrow> ('p, str) io \<times> file_like" where
  "load_and_extract_text env uploaded_file =
     (case read uploaded_file of
        (file_bytes, uploaded_file') \<Rightarrow>
          (case name uploaded_file' of
             None \<Rightarrow> raise AttributeError
           | Some n \<Rightarrow>
               if endswith (str_lower env n) (u ''.pdf'')
               then io_bind (extract_text_from_pdf env file_bytes)
                      (\<lambda>extracted.
                         if str_strip extracted \<noteq> [] then ret extracted
                         else io_bind (call (ConvertFromBytes file_bytes)
                                         (convert_from_bytes env file_bytes))
                                (\<lambda>images. perform_ocr_on_images env images))
               else io_bind (call (ImageOpen file_bytes) (Image_open env file_bytes))
                      (\<lambda>img. perform_ocr_on_images env [img]),
           uploaded_file'))"

subsection \<open>\<open>extract_fields_with_llm\<close>\<close>

text \<open>
  The prompt is the source's concatenation: the literals before \<open>text\<close>, \<open>text\<close>, the
  literals after it. \<open>choices[0]\<close> raises on an empty list, and \<open>json.loads\<close> raises
  a \<open>TypeError\<close> on a content that is \<open>None\<close>.
\<close>

definition prompt_head :: str where
  "prompt_head =
     u ''You are an invoice-processing assistant.\<newline>''
     @ u ''Extract exactly the following into a JSON object:\<newline>''
     @ u ''  '' @ [8226] @ u '' invoice_number (string)\<newline>''
     @ u ''  '' @ [8226] @ u '' invoice_date (YYYY-MM-DD)\<newline>''
     @ u ''  '' @ [8226] @ u '' vendor_name (string)\<newline>''
     @ u ''  '' @ [8226] @ u '' total_amount (numeric with currency)\<newline>''
     @ u ''  '' @ [8226]
     @ u '' products (array of objects, each with description, quantity, unit_price, line_total)\<newline>''
     @ u ''If any field is missing, use an empty string or empty array. Do not return any extra keys.\<newline>\<newline>''
     @ u ''Here is the raw invoice text:\<newline>```\<newline>''"

definition prompt_tail :: str where
  "prompt_tail =
     u ''\<newline>```\<newline>\<newline>''
     @ u ''Respond *only* with the JSON.''"

definition build_prompt :: "str \<Rightarrow> str" where
  "build_prompt text = prompt_head @ text @ prompt_tail"

definition chat_request_of :: "str \<Rightarrow> chat_request" where
  "chat_request_of prompt =
     \<lparr>model = u ''gpt-4'',
      messages = [\<lparr>role = u ''user'', content = Some prompt\<rparr>],
      temperature = 0\<rparr>"

definition extract_fields_with_llm :: "'p env \<Rightarrow> str \<Rightarrow> ('p, json) io" where
  "extract_fields_with_llm env text =
     (let prompt = build_prompt text;
          request = chat_request_of prompt
      in io_bind (call (ChatCreate request) (chat_completions_create env request))
           (\<lambda>response.
              case choices response of
                [] \<Rightarrow> raise IndexError
              | c # _ \<Rightarrow>
                  (case content (message c) of
                     None \<Rightarrow> raise TypeError
                   | Some reply \<Rightarrow> ([], json_loads env reply))))"

subsection \<open>\<open>run_pipeline\<close> and \<open>run_pipeline_with_bytes\<close>\<close>

definition run_pipeline :: "'p env \<Rightarrow> file_like \<Rightarrow> ('p, json) io \<times> file_like" where
  "run_pipeline env uploaded_file =
     (case load_and_extract_text env uploaded_file of
        (r, uploaded_file') \<Rightarrow>
          (io_bind r (\<lambda>text. io_bind (extract_fields_with_llm env text) (\<lambda>fields. ret fields)),
           uploaded_file'))"

definition run_pipeline_with_bytes :: "'p env \<Rightarrow> str \<Rightarrow> bytes \<Rightarrow> ('p, json) io" where
  "run_pipeline_with_bytes env nm file_bytes =
     (let fake_file = BytesIO file_bytes;
          fake_file = fake_file\<lparr>name := Some nm\<rparr>
      in fst (run_pipeline env fake_file))"

section \<open>Observations on a trace\<close>

text \<open>
  The properties below read the record of library calls: which calls recognise text,
  which belong to the OCR path (rasterising, decoding, converting, recognising), which
  go to the hosted model.
\<close>

fun is_ocr :: "'p event \<Rightarrow> bool" where
  "is_ocr (ImageToString _) = True"
| "is_ocr _ = False"

fun is_ocr_path :: "'p event \<Rightarrow> bool" where
  "is_ocr_path (ConvertFromBytes _) = True"
| "is_ocr_path (ImageOpen _) = True"
| "is_ocr_path (ImageConvert _ _) = True"
| "is_ocr_path (ImageToString _) = True"
| "is_ocr_path _ = False"

fun is_pdf_read :: "'p event \<Rightarrow> bool" where
  "is_pdf_read (FitzOpen _) = True"
| "is_pdf_read (GetText _) = True"
| "is_pdf_read _ = False"

fun is_llm :: "'p event \<Rightarrow> bool" where
  "is_llm (ChatCreate _) = True"
| "is_llm _ = False"

fun is_image_open :: "'p event \<Rightarrow> bool" where
  "is_image_open (ImageOpen _) = True"
| "is_image_open _ = False"

fun is_pdf_path :: "'p event \<Rightarrow> bool" where
  "is_pdf_path (FitzOpen _) = True"
| "is_pdf_path (GetText _) = True"
| "is_pdf_path (ConvertFromBytes _) = True"
| "is_pdf_path _ = False"

text \<open>
  A file name with the suffix \<open>.pdf\<close> in some capitalisation, said without the
  interpreter's \<open>lower\<close>: the name ends in one of the eight spellings.
\<close>

definition pdf_suffixes :: "str list" where
  "pdf_suffixes =
     [u ''.pdf'', u ''.pdF'', u ''.pDf'', u ''.pDF'', u ''.Pdf'', u ''.PdF'', u ''.PDf'',
      u ''.PDF'']"

definition has_pdf_suffix :: "str \<Rightarrow> bool" where
  "has_pdf_suffix nm = list_ex (endswith nm) pdf_suffixes"

definition invoice_keys :: "str list" where
  "invoice_keys =
     [u ''invoice_number'', u ''invoice_date'', u ''vendor_name'', u ''total_amount'',
      u ''products'']"



section \<open>A test double for the collaborators\<close>

text \<open>
  A small environment on which the functions can be run: a PDF has one page per byte,
  pages 1 and 2 carry text and every other page only white space; the rasteriser gives
  one single-pixel image per byte, a palette image where the byte is even; converting an
  image changes its mode; recognition reads the pixels as code points; the model
  answers with the given reply, and only \<open>demo_reply\<close> parses.
\<close>

definition demo_reply :: str where
  \<open>demo_reply =
     u ''{"invoice_number": "123", "invoice_date": "", "vendor_name": "", "total_amount": "$45.00", "products": []}''\<close>

definition demo_fields :: json where
  "demo_fields =
     JDict [(u ''invoice_number'', JStr (u ''123'')), (u ''invoice_date'', JStr []),
            (u ''vendor_name'', JStr []), (u ''total_amount'', JStr (u ''$45.00'')),
            (u ''products'', JList [])]"

definition demo_env :: "str \<Rightarrow> nat env" where
  "demo_env reply =
     \<lparr>fitz_open = (\<lambda>b. if b = [] then Inl (DecodeError (u ''cannot open empty document''))
                       else Inr (map unat b)),
      page_get_text = (\<lambda>p. if p = 1 then Inr (u ''Invoice #123, '')
                           else if p = 2 then Inr (u ''Total: $45.00'')
                           else Inr (u '' \<newline>'')),
      convert_from_bytes =
        (\<lambda>b. Inr (map (\<lambda>x. \<lparr>mode = (if even (unat x) then u ''P'' else u ''RGB''),
                              pixels = [x]\<rparr>) b)),
      Image_open = (\<lambda>b. if b = [] then Inl (DecodeError (u ''cannot identify image file''))
                        else Inr \<lparr>mode = u ''P'', pixels = b\<rparr>),
      Image_convert = (\<lambda>img m. Inr (img\<lparr>mode := m\<rparr>)),
      image_to_string = (\<lambda>img. Inr (map unat (pixels img))),
      chat_completions_create =
        (\<lambda>request. Inr \<lparr>choices = [\<lparr>message = \<lparr>role = u ''assistant'',
                                                  content = Some reply\<rparr>\<rparr>]\<rparr>),
      json_loads = (\<lambda>s. if s = demo_reply then Inr demo_fields
                        else Inl (JSONDecodeError (u ''Expecting value''))),
      unicode_lower = (\<lambda>s i. [s ! i])\<rparr>"

definition demo_file :: "string \<Rightarrow> bytes \<Rightarrow> file_like" where
  "demo_file nm b = \<lparr>name = Some (u nm), buffer = b, pos = 0\<rparr>"

section \<open>Properties\<close>

lemmas demo_simps =
  demo_env_def demo_file_def read_def u_def str_lower_def endswith_def
  str_strip_def isspace_def

lemma io_bind_Inl [simp]: "io_bind (t, Inl e) k = (t, Inl e)"
  by (simp add: io_bind_def)

lemma io_bind_Inr [simp]: "io_bind (t, Inr x) k = (t @ fst (k x), snd (k x))"
  by (simp add: io_bind_def split: prod.splits)

lemma io_bind_ret [simp]: "io_bind (ret x) k = k x"
  by (simp add: ret_def)

lemma io_bind_ret_right [simp]: "io_bind m ret = m"
  by (cases m) (auto simp: io_bind_def ret_def split: sum.splits)

lemma io_bind_unit_right [simp]: "io_bind m (\<lambda>x. ([], Inr x)) = m"
  by (cases m) (auto simp: io_bind_def split: sum.splits)

lemma fst_io_bind:
  "fst (io_bind m k) = (case snd m of Inl e \<Rightarrow> fst m | Inr x \<Rightarrow> fst m @ fst (k x))"
  by (cases m) (auto simp: io_bind_def split: sum.splits prod.splits)

lemma endswith_append: "endswith (a @ b) b"
  by (simp add: endswith_def)

lemma lower_from_append:
  "lower_from env s i (a @ b) = lower_from env s i a @ lower_from env s (i + length a) b"
  by (induction a arbitrary: i) simp_all

lemma str_lower_pdf_suffix:
  assumes "lower_from env (stem @ ext) (length stem) ext = u ''.pdf''"
  shows "endswith (str_lower env (stem @ ext)) (u ''.pdf'')"
proof -
  have "str_lower env (stem @ ext) = lower_from env (stem @ ext) 0 stem @ u ''.pdf''"
    using assms by (simp add: str_lower_def lower_from_append)
  then show ?thesis
    by (simp only: endswith_append)
qed

lemma pages_loop_ok:
  "list_all2 (\<lambda>p txt. page_get_text env p = Inr txt) pages texts \<Longrightarrow>
   pages_loop env pages acc = (map GetText pages, Inr (acc @ concat texts))"
proof (induction pages arbitrary: texts acc)
  case Nil
  then show ?case by (simp add: ret_def)
next
  case (Cons p ps)
  then obtain x xs where texts: "texts = x # xs" and x: "page_get_text env p = Inr x"
    and xs: "list_all2 (\<lambda>p txt. page_get_text env p = Inr txt) ps xs"
    by (auto simp: list_all2_Cons1)
  show ?case using Cons.IH [OF xs, of "acc @ x"] by (simp add: texts x call_def)
qed

lemma pages_loop_trace: "list_all is_pdf_read (fst (pages_loop env pages acc))"
  by (induction pages arbitrary: acc) (auto simp: ret_def call_def fst_io_bind split: sum.splits)

lemma extract_text_from_pdf_trace: "list_all is_pdf_read (fst (extract_text_from_pdf env b))"
  using pages_loop_trace [of env]
  by (auto simp: extract_text_from_pdf_def call_def fst_io_bind split: sum.splits)

lemma pdf_read_not_ocr_path: "list_all is_pdf_read t \<Longrightarrow> filter is_ocr_path t = []"
proof (induction t)
  case Nil
  then show ?case by simp
next
  case (Cons e t)
  then show ?case by (cases e) auto
qed

lemma load_and_extract_text_fst:
  "fst (load_and_extract_text env f) =
     (case name f of
        None \<Rightarrow> raise AttributeError
      | Some n \<Rightarrow>
          if endswith (str_lower env n) (u ''.pdf'')
          then io_bind (extract_text_from_pdf env (fst (read f)))
                 (\<lambda>extracted.
                    if str_strip extracted \<noteq> [] then ret extracted
                    else io_bind (call (ConvertFromBytes (fst (read f)))
                                    (convert_from_bytes env (fst (read f))))
                           (\<lambda>images. perform_ocr_on_images env images))
          else io_bind (call (ImageOpen (fst (read f))) (Image_open env (fst (read f))))
                 (\<lambda>img. perform_ocr_on_images env [img]))"
  by (cases "name f") (simp_all add: load_and_extract_text_def read_def cong: if_cong)

text \<open>
  \<^bold>\<open>C1.\<close> A PDF upload whose text layer, the concatenation of the text of every page in
  document order, is not empty once white space is stripped: \<open>load_and_extract_text\<close>
  returns that text unchanged, having only opened the document and read its pages. No
  call of the OCR path (rasterising, decoding, converting or recognising an image) is
  made.
\<close>

theorem native_pdf_returns_text_layer:
  assumes nm: "name f = Some nm"
    and pdf: "endswith (str_lower env nm) (u ''.pdf'')"
    and doc: "fitz_open env (fst (read f)) = Inr pages"
    and ptexts: "list_all2 (\<lambda>p txt. page_get_text env p = Inr txt) pages texts"
    and nonempty: "str_strip (concat texts) \<noteq> []"
  shows "fst (load_and_extract_text env f)
           = (FitzOpen (fst (read f)) # map GetText pages, Inr (concat texts))
         \<and> filter is_ocr_path (fst (fst (load_and_extract_text env f))) = []"
proof -
  have ex: "extract_text_from_pdf env (fst (read f))
              = (FitzOpen (fst (read f)) # map GetText pages, Inr (concat texts))"
    using pages_loop_ok [OF ptexts, of "[]"] by (simp add: extract_text_from_pdf_def call_def doc)
  have res: "fst (load_and_extract_text env f)
               = (FitzOpen (fst (read f)) # map GetText pages, Inr (concat texts))"
    using nm pdf nonempty by (simp add: load_and_extract_text_fst ex ret_def)
  have "list_all is_pdf_read (FitzOpen (fst (read f)) # map GetText pages)"
    using extract_text_from_pdf_trace [of env "fst (read f)"] by (simp add: ex)
  then have "filter is_ocr_path (FitzOpen (fst (read f)) # map GetText pages) = []"
    by (rule pdf_read_not_ocr_path)
  then show ?thesis by (simp add: res)
qed



lemma preprocess_image_no_ocr: "filter is_ocr (fst (preprocess_image env img)) = []"
  by (auto simp: preprocess_image_def call_def ret_def fst_io_bind split: sum.splits)


lemma ocr_loop_ok:
  assumes "list_all2 (\<lambda>img s. preprocess_image env img = (fst s, Inr (snd s))) images pre"
    and "list_all2 (\<lambda>s page_text. image_to_string env (snd s) = Inr page_text) pre texts"
  shows "ocr_loop env images acc
           = (concat (map (\<lambda>s. fst s @ [ImageToString (snd s)]) pre), Inr (acc @ texts))"
  using assms
proof (induction images arbitrary: pre texts acc)
  case Nil
  then show ?case by (simp add: ret_def)
next
  case (Cons img rest)
  from Cons.prems(1) obtain s pre' where pre: "pre = s # pre'"
    and s: "preprocess_image env img = (fst s, Inr (snd s))"
    and pre': "list_all2 (\<lambda>img s. preprocess_image env img = (fst s, Inr (snd s))) rest pre'"
    by (auto simp: list_all2_Cons1)
  from Cons.prems(2) pre obtain x xs where texts: "texts = x # xs"
    and x: "image_to_string env (snd s) = Inr x"
    and xs: "list_all2 (\<lambda>s page_text. image_to_string env (snd s) = Inr page_text) pre' xs"
    by (auto simp: list_all2_Cons1)
  show ?case
    using Cons.IH [OF pre' xs, of "acc @ [x]"] by (simp add: pre texts s x call_def)
qed

lemma filter_ocr_steps:
  assumes "list_all2 (\<lambda>img s. preprocess_image env img = (fst s, Inr (snd s))) images pre"
  shows "filter is_ocr (concat (map (\<lambda>s. fst s @ [ImageToString (snd s)]) pre))
           = map (\<lambda>s. ImageToString (snd s)) pre"
  using assms
proof (induction images pre rule: list_all2_induct)
  case Nil
  then show ?case by simp
next
  case (Cons img images s pre)
  have "filter is_ocr (fst s) = []"
    using preprocess_image_no_ocr [of env img] by (simp add: Cons.hyps(1))
  then show ?case using Cons.IH by simp
qed

lemma filter_ocr_pdf_read: "list_all is_pdf_read t \<Longrightarrow> filter is_ocr t = []"
proof (induction t)
  case Nil
  then show ?case by simp
next
  case (Cons e t)
  then show ?case by (cases e) auto
qed

lemma extract_text_from_pdf_ok:
  assumes "fitz_open env b = Inr pages"
    and "list_all2 (\<lambda>p page_text. page_get_text env p = Inr page_text) pages texts"
  shows "extract_text_from_pdf env b = (FitzOpen b # map GetText pages, Inr (concat texts))"
  using pages_loop_ok [OF assms(2), of "[]"] assms(1)
  by (simp add: extract_text_from_pdf_def call_def)

text \<open>
  \<^bold>\<open>C2.\<close> A PDF upload whose text layer is empty once white space is stripped: the
  pages are rasterised, each page image is preprocessed and recognised exactly once,
  in page order, and the text returned is the page results joined with newlines. The
  page images are those the rasteriser returns for the document.
\<close>

theorem scanned_pdf_ocr_once_per_page:
  assumes nm: "name f = Some nm"
    and pdf: "endswith (str_lower env nm) (u ''.pdf'')"
    and doc: "fitz_open env (fst (read f)) = Inr pages"
    and ptexts: "list_all2 (\<lambda>p page_text. page_get_text env p = Inr page_text) pages layer"
    and empty: "str_strip (concat layer) = []"
    and raster: "convert_from_bytes env (fst (read f)) = Inr images"
    and pre: "list_all2 (\<lambda>img s. preprocess_image env img = (fst s, Inr (snd s))) images pre"
    and ocr: "list_all2 (\<lambda>s page_text. image_to_string env (snd s) = Inr page_text) pre texts"
  shows "fst (load_and_extract_text env f)
           = (FitzOpen (fst (read f)) # map GetText pages
                @ ConvertFromBytes (fst (read f))
                # concat (map (\<lambda>s. fst s @ [ImageToString (snd s)]) pre),
              Inr (str_join (u ''\<newline>'') texts))
         \<and> filter is_ocr (fst (fst (load_and_extract_text env f)))
             = map (\<lambda>s. ImageToString (snd s)) pre
         \<and> length (filter is_ocr (fst (fst (load_and_extract_text env f)))) = length images"
proof -
  let ?b = "fst (read f)"
  have ex: "extract_text_from_pdf env ?b = (FitzOpen ?b # map GetText pages, Inr (concat layer))"
    by (rule extract_text_from_pdf_ok [OF doc ptexts])
  have loop: "ocr_loop env images []
                = (concat (map (\<lambda>s. fst s @ [ImageToString (snd s)]) pre), Inr texts)"
    using ocr_loop_ok [OF pre ocr, of "[]"] by simp
  have res: "fst (load_and_extract_text env f)
           = (FitzOpen ?b # map GetText pages
                @ ConvertFromBytes ?b # concat (map (\<lambda>s. fst s @ [ImageToString (snd s)]) pre),
              Inr (str_join (u ''\<newline>'') texts))"
    using nm pdf empty
    by (simp add: load_and_extract_text_fst ex call_def raster perform_ocr_on_images_def loop
        ret_def)
  have "list_all is_pdf_read (FitzOpen ?b # map GetText pages)"
    using extract_text_from_pdf_trace [of env ?b] by (simp add: ex)
  then have "filter is_ocr (FitzOpen ?b # map GetText pages) = []"
    by (rule filter_ocr_pdf_read)
  then have calls: "filter is_ocr (fst (fst (load_and_extract_text env f)))
                      = map (\<lambda>s. ImageToString (snd s)) pre"
    using filter_ocr_steps [OF pre] by (simp add: res)
  have "length pre = length images"
    using pre by (simp add: list_all2_lengthD)
  with res calls show ?thesis by simp
qed

text \<open>
  \<^bold>\<open>C3.\<close> An upload that is not a PDF: the payload is decoded as one image and text
  recognition is called exactly once, on the preprocessed form of that image; its
  result is the text returned.
\<close>

theorem image_upload_ocr_once:
  assumes nm: "name f = Some nm"
    and not_pdf: "\<not> endswith (str_lower env nm) (u ''.pdf'')"
    and decode: "Image_open env (fst (read f)) = Inr img"
    and pre: "preprocess_image env img = (tp, Inr proc)"
    and ocr: "image_to_string env proc = Inr page_text"
  shows "fst (load_and_extract_text env f)
           = (ImageOpen (fst (read f)) # tp @ [ImageToString proc], Inr page_text)
         \<and> filter is_ocr (fst (fst (load_and_extract_text env f))) = [ImageToString proc]"
proof -
  have res: "fst (load_and_extract_text env f)
           = (ImageOpen (fst (read f)) # tp @ [ImageToString proc], Inr page_text)"
    using nm not_pdf
    by (simp add: load_and_extract_text_fst call_def decode perform_ocr_on_images_def pre ocr
        ret_def)
  have "filter is_ocr tp = []"
    using preprocess_image_no_ocr [of env img] by (simp add: pre)
  with res show ?thesis by simp
qed





lemma fst_extract_fields_with_llm:
  "fst (extract_fields_with_llm env text) = [ChatCreate (chat_request_of (build_prompt text))]"
  by (simp add: extract_fields_with_llm_def Let_def fst_io_bind call_def raise_def
      split: sum.splits list.splits option.splits)

lemma extract_fields_with_llm_reply:
  assumes "chat_completions_create env (chat_request_of (build_prompt text)) = Inr response"
    and "choices response = c # cs"
    and "content (message c) = Some reply"
  shows "extract_fields_with_llm env text
           = ([ChatCreate (chat_request_of (build_prompt text))], json_loads env reply)"
  using assms by (simp add: extract_fields_with_llm_def Let_def call_def)

lemma run_pipeline_fst:
  "fst (run_pipeline env f)
     = io_bind (fst (load_and_extract_text env f)) (extract_fields_with_llm env)"
  by (simp add: run_pipeline_def split: prod.splits)

lemma filter_llm_pdf_read: "list_all is_pdf_read t \<Longrightarrow> filter is_llm t = []"
proof (induction t)
  case Nil
  then show ?case by simp
next
  case (Cons e t)
  then show ?case by (cases e) auto
qed

lemma preprocess_image_no_llm: "filter is_llm (fst (preprocess_image env img)) = []"
  by (auto simp: preprocess_image_def call_def ret_def fst_io_bind split: sum.splits)

lemma ocr_loop_no_llm: "filter is_llm (fst (ocr_loop env imgs acc)) = []"
proof (induction imgs arbitrary: acc)
  case Nil
  then show ?case by (simp add: ret_def)
next
  case (Cons img rest)
  then show ?case
    by (auto simp: fst_io_bind call_def preprocess_image_no_llm split: sum.splits)
qed

lemma perform_ocr_on_images_no_llm: "filter is_llm (fst (perform_ocr_on_images env imgs)) = []"
  by (auto simp: perform_ocr_on_images_def fst_io_bind ret_def ocr_loop_no_llm split: sum.splits)

lemma load_and_extract_text_no_llm:
  "filter is_llm (fst (fst (load_and_extract_text env f))) = []"
proof (cases "name f")
  case None
  then show ?thesis by (simp add: load_and_extract_text_fst raise_def)
next
  case (Some n)
  have pdf: "filter is_llm (fst (extract_text_from_pdf env b)) = []" for b
    by (rule filter_llm_pdf_read) (rule extract_text_from_pdf_trace)
  show ?thesis
    by (auto simp: load_and_extract_text_fst Some fst_io_bind call_def ret_def pdf
        perform_ocr_on_images_no_llm split: sum.splits)
qed

text \<open>
  \<^bold>\<open>C4.\<close> When the content of the first choice of the model's reply parses as an
  object with exactly the five invoice keys, \<open>extract_fields_with_llm\<close> returns that
  object: the same keys, the same values, nothing added.
\<close>

theorem extract_fields_returns_reply_object:
  assumes "chat_completions_create env (chat_request_of (build_prompt text)) = Inr response"
    and "choices response = c # cs"
    and "content (message c) = Some reply"
    and "json_loads env reply = Inr (JDict kvs)"
    and "distinct (map fst kvs)"
    and "set (map fst kvs) = set invoice_keys"
  shows "\<exists>fields. snd (extract_fields_with_llm env text) = Inr (JDict fields)
           \<and> fields = kvs \<and> distinct (map fst fields)
           \<and> set (map fst fields) = set invoice_keys"
  using assms extract_fields_with_llm_reply [OF assms(1-3)] by simp

text \<open>
  \<^bold>\<open>C5.\<close> \<open>run_pipeline\<close> runs text extraction and then field extraction. An exception
  of the first stage leaves \<open>run_pipeline\<close> as it is, and the model is never called;
  otherwise whatever the second stage gives, a value or an exception, is the outcome,
  after exactly one call of the model. In particular the parse error of a reply that is
  not JSON leaves \<open>run_pipeline\<close> right after that one call: nothing is retried.
\<close>

theorem run_pipeline_propagates_errors:
  "(fst (load_and_extract_text env f) = (t, Inl e)
      \<longrightarrow> fst (run_pipeline env f) = (t, Inl e) \<and> filter is_llm t = [])
   \<and> (fst (load_and_extract_text env f) = (t, Inr text)
        \<and> extract_fields_with_llm env text = (t', r)
      \<longrightarrow> fst (run_pipeline env f) = (t @ t', r)
          \<and> filter is_llm (t @ t') = [ChatCreate (chat_request_of (build_prompt text))])
   \<and> (fst (load_and_extract_text env f) = (t, Inr text)
        \<and> chat_completions_create env (chat_request_of (build_prompt text)) = Inr response
        \<and> choices response = c # cs \<and> content (message c) = Some reply
        \<and> json_loads env reply = Inl e
      \<longrightarrow> fst (run_pipeline env f)
            = (t @ [ChatCreate (chat_request_of (build_prompt text))], Inl e))"
proof -
  have no_llm: "filter is_llm t = []" if "fst (load_and_extract_text env f) = (t, x)" for x
    using load_and_extract_text_no_llm [of env f] that by simp
  have first: "fst (run_pipeline env f) = (t, Inl e) \<and> filter is_llm t = []"
    if l: "fst (load_and_extract_text env f) = (t, Inl e)"
    using no_llm [OF l] by (simp add: run_pipeline_fst l)
  have second: "fst (run_pipeline env f) = (t @ t', r)
          \<and> filter is_llm (t @ t') = [ChatCreate (chat_request_of (build_prompt text))]"
    if l: "fst (load_and_extract_text env f) = (t, Inr text)"
      and x: "extract_fields_with_llm env text = (t', r)"
  proof -
    have "t' = [ChatCreate (chat_request_of (build_prompt text))]"
      using fst_extract_fields_with_llm [of env "text"] by (simp add: x)
    then show ?thesis
      using no_llm [OF l] by (simp add: run_pipeline_fst l x)
  qed
  have third: "fst (run_pipeline env f)
            = (t @ [ChatCreate (chat_request_of (build_prompt text))], Inl e)"
    if l: "fst (load_and_extract_text env f) = (t, Inr text)"
      and m: "chat_completions_create env (chat_request_of (build_prompt text)) = Inr response"
      and c: "choices response = c # cs" and r: "content (message c) = Some reply"
      and j: "json_loads env reply = Inl e"
    using extract_fields_with_llm_reply [OF m c r] by (simp add: run_pipeline_fst l j)
  show ?thesis
  proof (intro conjI impI)
    assume "fst (load_and_extract_text env f) = (t, Inl e)"
    then show "fst (run_pipeline env f) = (t, Inl e)" and "filter is_llm t = []"
      using first by blast+
  next
    assume a: "fst (load_and_extract_text env f) = (t, Inr text)
               \<and> extract_fields_with_llm env text = (t', r)"
    show "fst (run_pipeline env f) = (t @ t', r)"
      and "filter is_llm (t @ t') = [ChatCreate (chat_request_of (build_prompt text))]"
      using second [OF conjunct1 [OF a] conjunct2 [OF a]] by blast+
  next
    assume "fst (load_and_extract_text env f) = (t, Inr text)
        \<and> chat_completions_create env (chat_request_of (build_prompt text)) = Inr response
        \<and> choices response = c # cs \<and> content (message c) = Some reply
        \<and> json_loads env reply = Inl e"
    then show "fst (run_pipeline env f)
            = (t @ [ChatCreate (chat_request_of (build_prompt text))], Inl e)"
      by (elim conjE) (rule third)
  qed
qed

lemma io_bind_first_event:
  "\<exists>t' r'. io_bind (e # t, r) k = (e # t', r')"
  by (cases r) (simp_all add: io_bind_def split: prod.splits)

lemma pdf_path_first_event:
  assumes "name f = Some nm" and "endswith (str_lower env nm) (u ''.pdf'')"
  shows "\<exists>t r. fst (load_and_extract_text env f) = (FitzOpen (fst (read f)) # t, r)"
proof -
  let ?b = "fst (read f)"
  obtain t1 r1 where
    "extract_text_from_pdf env ?b = (FitzOpen ?b # t1, r1)"
    using io_bind_first_event
      [of "FitzOpen ?b" "[]" "fitz_open env ?b" "\<lambda>doc. pages_loop env doc []"]
    by (auto simp: extract_text_from_pdf_def call_def)
  then show ?thesis
    using assms io_bind_first_event [of "FitzOpen ?b" t1 r1]
    by (simp add: load_and_extract_text_fst)
qed

lemma endswith_iff: "endswith s suf \<longleftrightarrow> (\<exists>stem. s = stem @ suf)"
proof
  assume "endswith s suf"
  then have "s = take (length s - length suf) s @ suf"
    by (metis append_take_drop_id endswith_def)
  then show "\<exists>stem. s = stem @ suf" ..
next
  assume "\<exists>stem. s = stem @ suf"
  then show "endswith s suf" by (auto simp: endswith_def)
qed

lemma endswith_snoc_last:
  assumes "endswith (a @ piece) (suf @ [t])" and "piece \<noteq> []"
  shows "last piece = t"
proof -
  from assms(1) obtain stem where "a @ piece = stem @ suf @ [t]"
    by (auto simp: endswith_iff)
  then have "last (a @ piece) = t"
    by (metis append_assoc last_snoc)
  with assms(2) show ?thesis by simp
qed

lemma endswith_snoc_snoc:
  "endswith (a @ [c]) (suf @ [t]) \<longleftrightarrow> c = t \<and> endswith a suf"
  by (auto simp: endswith_def)

lemma endswith_Nil_left: "endswith [] (suf @ [t]) = False"
  by (simp add: endswith_def)

text \<open>One step from the right: the last code point of a lowered prefix of \<open>s\<close>.\<close>

lemma lower_from_snoc_target:
  assumes tbl: "\<forall>s i. i < length s \<and> 128 \<le> s ! i
                  \<longrightarrow> unicode_lower env s i \<noteq> []
                      \<and> set (unicode_lower env s i) \<inter> set (u ''.pdf'') = {}"
    and pre: "s = xs @ c # rest"
    and e: "endswith (lower_from env s 0 (xs @ [c])) (suf @ [t])"
    and t: "t \<in> set (u ''.pdf'')"
  shows "c < 128 \<and> (if 65 \<le> c \<and> c \<le> 90 then c + 32 else c) = t
         \<and> endswith (lower_from env s 0 xs) suf"
proof (cases "c < 128")
  case True
  then have "lower_from env s 0 (xs @ [c])
               = lower_from env s 0 xs @ [if 65 \<le> c \<and> c \<le> 90 then c + 32 else c]"
    by (simp add: lower_from_append)
  with e True show ?thesis
    by (simp add: endswith_snoc_snoc)
next
  case False
  have i: "length xs < length s" and c: "s ! length xs = c"
    by (simp_all add: pre)
  from tbl i c False have ne: "unicode_lower env s (length xs) \<noteq> []"
    and dis: "set (unicode_lower env s (length xs)) \<inter> set (u ''.pdf'') = {}"
    by auto
  have "lower_from env s 0 (xs @ [c])
          = lower_from env s 0 xs @ unicode_lower env s (length xs)"
    using False by (simp add: lower_from_append)
  with e have "last (unicode_lower env s (length xs)) = t"
    using ne by (simp add: endswith_snoc_last)
  then have "t \<in> set (unicode_lower env s (length xs))"
    using ne last_in_set by blast
  with dis t show ?thesis by blast
qed


lemma lowered_endswith_nonempty:
  "endswith (lower_from env s i xs) (suf @ [t]) \<Longrightarrow> xs \<noteq> []"
  by (auto simp: endswith_def)

lemma ascii_lower_cases:
  assumes "(c :: nat) < 128" and "(if 65 \<le> c \<and> c \<le> 90 then c + 32 else c) = t"
  shows "t = 46 \<longrightarrow> c = 46" and "t = 112 \<longrightarrow> c = 80 \<or> c = 112"
    and "t = 100 \<longrightarrow> c = 68 \<or> c = 100" and "t = 102 \<longrightarrow> c = 70 \<or> c = 102"
  using assms by (auto split: if_splits)

lemma lowered_pdf_suffixD:
  assumes tbl: "\<forall>s i. i < length s \<and> 128 \<le> s ! i
                  \<longrightarrow> unicode_lower env s i \<noteq> []
                      \<and> set (unicode_lower env s i) \<inter> set (u ''.pdf'') = {}"
    and e: "endswith (str_lower env nm) (u ''.pdf'')"
  shows "\<exists>stem a p d x. nm = stem @ [a, p, d, x] \<and> a = 46 \<and> (p = 80 \<or> p = 112)
           \<and> (d = 68 \<or> d = 100) \<and> (x = 70 \<or> x = 102)"
proof -
  have pdf: "u ''.pdf'' = [] @ [46] @ [112] @ [100] @ [102]"
    by (simp add: u_def)
  have mem: "46 \<in> set (u ''.pdf'')" "112 \<in> set (u ''.pdf'')" "100 \<in> set (u ''.pdf'')"
    "102 \<in> set (u ''.pdf'')"
    by (simp_all add: u_def)
  have e0: "endswith (lower_from env nm 0 nm) (([46] @ [112] @ [100]) @ [102])"
    using e by (simp add: str_lower_def u_def)
  have "nm \<noteq> []"
    using e0 by (rule lowered_endswith_nonempty)
  then obtain xs1 x where nm1: "nm = xs1 @ [x]"
    by (metis rev_exhaust)
  have s1: "nm = xs1 @ x # []"
    by (simp add: nm1)
  have e0': "endswith (lower_from env nm 0 (xs1 @ [x])) (([46] @ [112] @ [100]) @ [102])"
    using e0 nm1 by simp
  note c1 = lower_from_snoc_target [OF tbl s1 e0' mem(4)]
  have x: "x = 70 \<or> x = 102"
    using c1 ascii_lower_cases(4) by blast
  have e1: "endswith (lower_from env nm 0 xs1) (([46] @ [112]) @ [100])"
    using c1 by simp
  have "xs1 \<noteq> []"
    using e1 by (rule lowered_endswith_nonempty)
  then obtain xs2 d where xs1: "xs1 = xs2 @ [d]"
    by (metis rev_exhaust)
  have s2: "nm = xs2 @ d # [x]"
    by (simp add: nm1 xs1)
  have e1': "endswith (lower_from env nm 0 (xs2 @ [d])) (([46] @ [112]) @ [100])"
    using e1 xs1 by simp
  note c2 = lower_from_snoc_target [OF tbl s2 e1' mem(3)]
  have d: "d = 68 \<or> d = 100"
    using c2 ascii_lower_cases(3) by blast
  have e2: "endswith (lower_from env nm 0 xs2) ([46] @ [112])"
    using c2 by simp
  have "xs2 \<noteq> []"
    using e2 by (rule lowered_endswith_nonempty)
  then obtain xs3 p where xs2: "xs2 = xs3 @ [p]"
    by (metis rev_exhaust)
  have s3: "nm = xs3 @ p # [d, x]"
    by (simp add: nm1 xs1 xs2)
  have e2': "endswith (lower_from env nm 0 (xs3 @ [p])) ([46] @ [112])"
    using e2 xs2 by simp
  note c3 = lower_from_snoc_target [OF tbl s3 e2' mem(2)]
  have p: "p = 80 \<or> p = 112"
    using c3 ascii_lower_cases(2) by blast
  have e3: "endswith (lower_from env nm 0 xs3) ([] @ [46])"
    using c3 by simp
  have "xs3 \<noteq> []"
    using e3 by (rule lowered_endswith_nonempty)
  then obtain xs4 a where xs3: "xs3 = xs4 @ [a]"
    by (metis rev_exhaust)
  have s4: "nm = xs4 @ a # [p, d, x]"
    by (simp add: nm1 xs1 xs2 xs3)
  have e3': "endswith (lower_from env nm 0 (xs4 @ [a])) ([] @ [46])"
    using e3 xs3 by simp
  note c4 = lower_from_snoc_target [OF tbl s4 e3' mem(1)]
  have a: "a = 46"
    using c4 ascii_lower_cases(1) by blast
  have "nm = xs4 @ [a, p, d, x]"
    by (simp add: s4)
  with a p d x show ?thesis by blast
qed

lemma has_pdf_suffix_iff:
  "has_pdf_suffix nm \<longleftrightarrow>
     (\<exists>stem a p d x. nm = stem @ [a, p, d, x] \<and> a = 46 \<and> (p = 80 \<or> p = 112)
        \<and> (d = 68 \<or> d = 100) \<and> (x = 70 \<or> x = 102))"
proof
  assume "has_pdf_suffix nm"
  then obtain ext stem where ext: "ext \<in> set pdf_suffixes" and nm: "nm = stem @ ext"
    by (auto simp: has_pdf_suffix_def list_ex_iff endswith_iff)
  from ext have "\<exists>a p d x. ext = [a, p, d, x] \<and> a = 46 \<and> (p = 80 \<or> p = 112)
        \<and> (d = 68 \<or> d = 100) \<and> (x = 70 \<or> x = 102)"
    by (auto simp: pdf_suffixes_def u_def)
  with nm show "\<exists>stem a p d x. nm = stem @ [a, p, d, x] \<and> a = 46 \<and> (p = 80 \<or> p = 112)
        \<and> (d = 68 \<or> d = 100) \<and> (x = 70 \<or> x = 102)"
    by blast
next
  assume "\<exists>stem a p d x. nm = stem @ [a, p, d, x] \<and> a = 46 \<and> (p = 80 \<or> p = 112)
        \<and> (d = 68 \<or> d = 100) \<and> (x = 70 \<or> x = 102)"
  then obtain stem a p d x where nm: "nm = stem @ [a, p, d, x]" and a: "a = 46"
    and p: "p = 80 \<or> p = 112" and d: "d = 68 \<or> d = 100" and x: "x = 70 \<or> x = 102"
    by blast
  have "[a, p, d, x] \<in> set pdf_suffixes"
    using a p d x by (elim disjE) (simp_all add: pdf_suffixes_def u_def)
  then show "has_pdf_suffix nm"
    unfolding has_pdf_suffix_def list_ex_iff nm using endswith_append by blast
qed

lemma has_pdf_suffix_lowered:
  assumes "has_pdf_suffix nm"
  shows "endswith (str_lower env nm) (u ''.pdf'')"
proof -
  from assms obtain stem a p d x where nm: "nm = stem @ [a, p, d, x]" and a: "a = 46"
    and p: "p = 80 \<or> p = 112" and d: "d = 68 \<or> d = 100" and x: "x = 70 \<or> x = 102"
    unfolding has_pdf_suffix_iff by blast
  have "lower_from env s j [a, p, d, x] = u ''.pdf''" for s j
    using a p d x by (elim disjE) (simp_all add: u_def)
  then show ?thesis
    unfolding nm by (rule str_lower_pdf_suffix)
qed


lemma preprocess_image_filter:
  assumes "\<And>a b. \<not> P (ImageConvert a b)"
  shows "filter P (fst (preprocess_image env img)) = []"
  using assms
  by (auto simp: preprocess_image_def call_def ret_def fst_io_bind split: sum.splits)

lemma ocr_loop_filter:
  assumes "\<And>a b. \<not> P (ImageConvert a b)" and "\<And>a. \<not> P (ImageToString a)"
  shows "filter P (fst (ocr_loop env imgs acc)) = []"
proof (induction imgs arbitrary: acc)
  case Nil
  then show ?case by (simp add: ret_def)
next
  case (Cons img rest)
  then show ?case
    using assms
    by (auto simp: fst_io_bind call_def preprocess_image_filter split: sum.splits)
qed

lemma perform_ocr_on_images_filter:
  assumes "\<And>a b. \<not> P (ImageConvert a b)" and "\<And>a. \<not> P (ImageToString a)"
  shows "filter P (fst (perform_ocr_on_images env imgs)) = []"
  using ocr_loop_filter [of P env imgs "[]", OF assms]
  by (auto simp: perform_ocr_on_images_def fst_io_bind ret_def split: sum.splits)

lemma filter_image_open_pdf_read: "list_all is_pdf_read t \<Longrightarrow> filter is_image_open t = []"
proof (induction t)
  case Nil
  then show ?case by simp
next
  case (Cons e t)
  then show ?case by (cases e) auto
qed

lemma pdf_path_no_image_open:
  "filter is_image_open
     (fst (io_bind (extract_text_from_pdf env b)
        (\<lambda>extracted.
           if str_strip extracted \<noteq> [] then ret extracted
           else io_bind (call (ConvertFromBytes b) (convert_from_bytes env b))
                  (\<lambda>images. perform_ocr_on_images env images)))) = []"
proof -
  have pdf: "filter is_image_open (fst (extract_text_from_pdf env b)) = []"
    by (rule filter_image_open_pdf_read) (rule extract_text_from_pdf_trace)
  have ocr: "filter is_image_open (fst (perform_ocr_on_images env imgs)) = []" for imgs
    by (rule perform_ocr_on_images_filter) simp_all
  show ?thesis
    by (auto simp: fst_io_bind call_def ret_def pdf ocr split: sum.splits)
qed

lemma image_path_no_pdf_call:
  "filter is_pdf_path
     (fst (io_bind (call (ImageOpen b) (Image_open env b))
        (\<lambda>img. perform_ocr_on_images env [img]))) = []"
proof -
  have ocr: "filter is_pdf_path (fst (perform_ocr_on_images env imgs)) = []" for imgs
    by (rule perform_ocr_on_images_filter) simp_all
  show ?thesis
    by (auto simp: fst_io_bind call_def ocr split: sum.splits)
qed

text \<open>
  \<^bold>\<open>C7.\<close> The path is decided by the suffix of the file name alone, compared without
  regard to case. A name ending in \<open>.pdf\<close> in any capitalisation takes the PDF path
  whatever the payload: the outcome is that of extracting the text layer and, where it
  is empty, rasterising and recognising, and \<open>Image.open\<close> is never called. Every other
  name, whatever its extension, is handed to the image path as it is: the outcome is
  that of decoding the payload as an image and running the OCR stage on it, so no
  exception is raised for the extension, and no PDF library is called. The premise on
  \<open>unicode_lower\<close> is a fact of the interpreter's tables: a code point beyond ASCII is
  lowered to at least one code point and never to one of \<open>.\<close>, \<open>p\<close>, \<open>d\<close>, \<open>f\<close>.
\<close>

theorem path_chosen_by_suffix_ignoring_case:
  assumes nm: "name f = Some nm"
    and tbl: "\<forall>s i. i < length s \<and> 128 \<le> s ! i
                  \<longrightarrow> unicode_lower env s i \<noteq> []
                      \<and> set (unicode_lower env s i) \<inter> set (u ''.pdf'') = {}"
  shows "(has_pdf_suffix nm
            \<longrightarrow> fst (load_and_extract_text env f)
                  = io_bind (extract_text_from_pdf env (fst (read f)))
                      (\<lambda>extracted.
                         if str_strip extracted \<noteq> [] then ret extracted
                         else io_bind (call (ConvertFromBytes (fst (read f)))
                                         (convert_from_bytes env (fst (read f))))
                                (\<lambda>images. perform_ocr_on_images env images))
                \<and> filter is_image_open (fst (fst (load_and_extract_text env f))) = [])
         \<and> (\<not> has_pdf_suffix nm
            \<longrightarrow> fst (load_and_extract_text env f)
                  = io_bind (call (ImageOpen (fst (read f))) (Image_open env (fst (read f))))
                      (\<lambda>img. perform_ocr_on_images env [img])
                \<and> filter is_pdf_path (fst (fst (load_and_extract_text env f))) = [])"
proof -
  let ?b = "fst (read f)"
  have pdf: "fst (load_and_extract_text env f)
               = io_bind (extract_text_from_pdf env ?b)
                   (\<lambda>extracted.
                      if str_strip extracted \<noteq> [] then ret extracted
                      else io_bind (call (ConvertFromBytes ?b) (convert_from_bytes env ?b))
                             (\<lambda>images. perform_ocr_on_images env images))"
    if "has_pdf_suffix nm"
    using nm has_pdf_suffix_lowered [OF that, of env] by (simp add: load_and_extract_text_fst)
  have img: "fst (load_and_extract_text env f)
               = io_bind (call (ImageOpen ?b) (Image_open env ?b))
                   (\<lambda>img. perform_ocr_on_images env [img])"
    if n: "\<not> has_pdf_suffix nm"
  proof -
    have "\<not> endswith (str_lower env nm) (u ''.pdf'')"
      using n lowered_pdf_suffixD [OF tbl, of nm] unfolding has_pdf_suffix_iff by blast
    with nm show ?thesis by (simp add: load_and_extract_text_fst)
  qed
  show ?thesis
  proof (intro conjI impI)
    assume h: "has_pdf_suffix nm"
    show "fst (load_and_extract_text env f)
               = io_bind (extract_text_from_pdf env ?b)
                   (\<lambda>extracted.
                      if str_strip extracted \<noteq> [] then ret extracted
                      else io_bind (call (ConvertFromBytes ?b) (convert_from_bytes env ?b))
                             (\<lambda>images. perform_ocr_on_images env images))"
      by (rule pdf [OF h])
    show "filter is_image_open (fst (fst (load_and_extract_text env f))) = []"
      unfolding pdf [OF h] by (rule pdf_path_no_image_open)
  next
    assume n: "\<not> has_pdf_suffix nm"
    show "fst (load_and_extract_text env f)
               = io_bind (call (ImageOpen ?b) (Image_open env ?b))
                   (\<lambda>img. perform_ocr_on_images env [img])"
      by (rule img [OF n])
    show "filter is_pdf_path (fst (fst (load_and_extract_text env f))) = []"
      unfolding img [OF n] by (rule image_path_no_pdf_call)
  qed
qed

text \<open>
  \<^bold>\<open>C8.\<close> For every input text \<open>extract_fields_with_llm\<close> makes exactly one call of the
  model, with model \<open>gpt-4\<close>, temperature 0 and one user message. Its content is the
  fixed instruction of the source, which names the five keys, with the input text
  between the opening and the closing fence, unabridged: 430 code points before it and
  35 after it.
\<close>

theorem one_model_call_with_verbatim_text:
  "fst (extract_fields_with_llm env text)
     = [ChatCreate
          \<lparr>model = u ''gpt-4'',
           messages =
             [\<lparr>role = u ''user'',
               content = Some
                 (u ''You are an invoice-processing assistant.\<newline>''
                  @ u ''Extract exactly the following into a JSON object:\<newline>''
                  @ u ''  '' @ [8226] @ u '' invoice_number (string)\<newline>''
                  @ u ''  '' @ [8226] @ u '' invoice_date (YYYY-MM-DD)\<newline>''
                  @ u ''  '' @ [8226] @ u '' vendor_name (string)\<newline>''
                  @ u ''  '' @ [8226] @ u '' total_amount (numeric with currency)\<newline>''
                  @ u ''  '' @ [8226]
                  @ u '' products (array of objects, each with description, quantity, unit_price, line_total)\<newline>''
                  @ u ''If any field is missing, use an empty string or empty array. Do not return any extra keys.\<newline>\<newline>''
                  @ u ''Here is the raw invoice text:\<newline>```\<newline>''
                  @ text
                  @ u ''\<newline>```\<newline>\<newline>''
                  @ u ''Respond *only* with the JSON.'')\<rparr>],
           temperature = 0\<rparr>]
   \<and> length (build_prompt text) = 430 + length text + 35"
proof -
  have "length prompt_head = 430" and "length prompt_tail = 35"
    by (simp_all add: prompt_head_def prompt_tail_def u_def)
  then have "length (build_prompt text) = 430 + length text + 35"
    by (simp add: build_prompt_def)
  moreover have "fst (extract_fields_with_llm env text)
     = [ChatCreate \<lparr>model = u ''gpt-4'',
          messages = [\<lparr>role = u ''user'', content = Some (prompt_head @ text @ prompt_tail)\<rparr>],
          temperature = 0\<rparr>]"
    by (simp add: fst_extract_fields_with_llm chat_request_of_def build_prompt_def)
  ultimately show ?thesis
    by (simp add: prompt_head_def prompt_tail_def)
qed

lemma load_and_extract_text_cong:
  assumes "name f = name g" and "fst (read f) = fst (read g)"
  shows "fst (load_and_extract_text env f) = fst (load_and_extract_text env g)"
  unfolding load_and_extract_text_fst assms ..

text \<open>
  \<^bold>\<open>C9.\<close> \<open>run_pipeline_with_bytes\<close> on a name and a payload gives what \<open>run_pipeline\<close>
  gives on a file object with that name and that payload, read from its start.
\<close>

theorem run_pipeline_with_bytes_same_as_run_pipeline:
  assumes "name f = Some nm" and "buffer f = b" and "pos f = 0"
  shows "run_pipeline_with_bytes env nm b = fst (run_pipeline env f)"
proof -
  let ?g = "BytesIO b\<lparr>name := Some nm\<rparr>"
  have "name ?g = name f" and "fst (read ?g) = fst (read f)"
    using assms by (simp_all add: BytesIO_def read_def)
  then have "fst (load_and_extract_text env ?g) = fst (load_and_extract_text env f)"
    by (rule load_and_extract_text_cong)
  then show ?thesis
    by (simp add: run_pipeline_with_bytes_def Let_def run_pipeline_fst)
qed

text \<open>
  \<^bold>\<open>C10.\<close> The suffix check ignores case: a file whose name ends in \<open>.pdf\<close> in any
  capitalisation is treated exactly as the file with the suffix in lower case, and takes
  the PDF path.
\<close>

theorem suffix_check_ignores_case:
  assumes "name f = Some (stem @ [of_char CHR ''.'', p, d, x])"
    and "p = of_char CHR ''P'' \<or> p = of_char CHR ''p''"
    and "d = of_char CHR ''D'' \<or> d = of_char CHR ''d''"
    and "x = of_char CHR ''F'' \<or> x = of_char CHR ''f''"
  shows "fst (load_and_extract_text env f)
           = fst (load_and_extract_text env (f\<lparr>name := Some (stem @ u ''.pdf'')\<rparr>))
         \<and> (\<exists>t r. fst (load_and_extract_text env f) = (FitzOpen (fst (read f)) # t, r))"
proof -
  let ?g = "f\<lparr>name := Some (stem @ u ''.pdf'')\<rparr>"
  let ?k = "\<lambda>extracted.
              if str_strip extracted \<noteq> [] then ret extracted
              else io_bind (call (ConvertFromBytes (fst (read f)))
                              (convert_from_bytes env (fst (read f))))
                     (\<lambda>images. perform_ocr_on_images env images)"
  have "lower_from env s j [of_char CHR ''.'', p, d, x] = u ''.pdf''" for s j
    using assms(2-4) by (elim disjE) (simp_all add: u_def)
  then have e: "endswith (str_lower env (stem @ [of_char CHR ''.'', p, d, x])) (u ''.pdf'')"
    by (rule str_lower_pdf_suffix)
  have "lower_from env s j (u ''.pdf'') = u ''.pdf''" for s j
    by (simp add: u_def)
  then have e': "endswith (str_lower env (stem @ u ''.pdf'')) (u ''.pdf'')"
    by (rule str_lower_pdf_suffix)
  have r: "fst (read ?g) = fst (read f)"
    by (simp add: read_def)
  have "fst (load_and_extract_text env f) = io_bind (extract_text_from_pdf env (fst (read f))) ?k"
    unfolding load_and_extract_text_fst assms(1) using e by simp
  moreover have "fst (load_and_extract_text env ?g)
                   = io_bind (extract_text_from_pdf env (fst (read f))) ?k"
    unfolding load_and_extract_text_fst r using e' by simp
  moreover have "\<exists>t r. fst (load_and_extract_text env f) = (FitzOpen (fst (read f)) # t, r)"
    using assms(1) e by (rule pdf_path_first_event)
  ultimately show ?thesis by simp
qed

section \<open>The properties on the test double\<close>

text \<open>
  Each property with a premise is run once on \<open>demo_env\<close>: a native PDF of two pages, a
  scanned PDF of two pages, a palette image, a reply that is not JSON, and file names in
  several capitalisations.
\<close>

theorem native_pdf_returns_text_layer_witness:
  "name (demo_file ''invoice.pdf'' [1, 2]) = Some (u ''invoice.pdf'')
   \<and> endswith (str_lower (demo_env demo_reply) (u ''invoice.pdf'')) (u ''.pdf'')
   \<and> str_strip (concat [u ''Invoice #123, '', u ''Total: $45.00'']) \<noteq> []
   \<and> fst (load_and_extract_text (demo_env demo_reply) (demo_file ''invoice.pdf'' [1, 2]))
       = ([FitzOpen [1, 2], GetText 1, GetText 2], Inr (u ''Invoice #123, Total: $45.00''))
   \<and> filter is_ocr_path
         (fst (fst (load_and_extract_text (demo_env demo_reply)
                      (demo_file ''invoice.pdf'' [1, 2])))) = []"
proof -
  let ?env = "demo_env demo_reply"
  let ?f = "demo_file ''invoice.pdf'' [1, 2]"
  have h1: "name ?f = Some (u ''invoice.pdf'')"
    by (simp add: demo_file_def)
  have h2: "endswith (str_lower ?env (u ''invoice.pdf'')) (u ''.pdf'')"
    by (simp add: demo_simps)
  have h3: "fitz_open ?env (fst (read ?f)) = Inr [1, 2]"
    by (simp add: demo_simps)
  have h4: "list_all2 (\<lambda>p page_text. page_get_text ?env p = Inr page_text) [1, 2]
              [u ''Invoice #123, '', u ''Total: $45.00'']"
    by (simp add: demo_simps)
  have h5: "str_strip (concat [u ''Invoice #123, '', u ''Total: $45.00'']) \<noteq> []"
    by (simp add: demo_simps)
  from native_pdf_returns_text_layer [OF h1 h2 h3 h4 h5] h1 h2 h5 show ?thesis
    by (simp add: demo_file_def read_def u_def)
qed


theorem scanned_pdf_ocr_once_per_page_witness:
  "str_strip (concat [u '' \<newline>'', u '' \<newline>'']) = []
   \<and> convert_from_bytes (demo_env demo_reply) [72, 105]
       = Inr [\<lparr>mode = u ''P'', pixels = [72]\<rparr>, \<lparr>mode = u ''RGB'', pixels = [105]\<rparr>]
   \<and> snd (fst (load_and_extract_text (demo_env demo_reply) (demo_file ''scan.PDF'' [72, 105])))
       = Inr (u ''H\<newline>i'')
   \<and> filter is_ocr
         (fst (fst (load_and_extract_text (demo_env demo_reply)
                      (demo_file ''scan.PDF'' [72, 105]))))
       = [ImageToString \<lparr>mode = u ''L'', pixels = [72]\<rparr>,
          ImageToString \<lparr>mode = u ''L'', pixels = [105]\<rparr>]"
proof -
  let ?env = "demo_env demo_reply"
  let ?f = "demo_file ''scan.PDF'' [72, 105]"
  let ?p = "\<lparr>mode = u ''P'', pixels = [72]\<rparr>"
  let ?q = "\<lparr>mode = u ''RGB'', pixels = [105]\<rparr>"
  let ?pre = "[([ImageConvert ?p (u ''RGBA''), ImageConvert (?p\<lparr>mode := u ''RGBA''\<rparr>) (u ''L'')],
                ?p\<lparr>mode := u ''L''\<rparr>),
               ([ImageConvert ?q (u ''L'')], ?q\<lparr>mode := u ''L''\<rparr>)]"
  have h1: "name ?f = Some (u ''scan.PDF'')"
    by (simp add: demo_file_def)
  have h2: "endswith (str_lower ?env (u ''scan.PDF'')) (u ''.pdf'')"
    by (simp add: demo_simps)
  have h3: "fitz_open ?env (fst (read ?f)) = Inr [72, 105]"
    by (simp add: demo_simps)
  have h4: "list_all2 (\<lambda>p page_text. page_get_text ?env p = Inr page_text) [72, 105]
              [u '' \<newline>'', u '' \<newline>'']"
    by (simp add: demo_simps)
  have h5: "str_strip (concat [u '' \<newline>'', u '' \<newline>'']) = []"
    by (simp add: demo_simps)
  have h6: "convert_from_bytes ?env (fst (read ?f)) = Inr [?p, ?q]"
    by (simp add: demo_simps)
  have h7: "list_all2 (\<lambda>img s. preprocess_image ?env img = (fst s, Inr (snd s))) [?p, ?q] ?pre"
    by (simp add: preprocess_image_def call_def ret_def demo_simps)
  have h8: "list_all2 (\<lambda>s page_text. image_to_string ?env (snd s) = Inr page_text) ?pre
              [u ''H'', u ''i'']"
    by (simp add: demo_simps)
  from scanned_pdf_ocr_once_per_page [OF h1 h2 h3 h4 h5 h6 h7 h8] h5 h6 show ?thesis
    by (simp add: demo_file_def read_def u_def)
qed

theorem image_upload_ocr_once_witness:
  "\<not> endswith (str_lower (demo_env demo_reply) (u ''photo.png'')) (u ''.pdf'')
   \<and> fst (load_and_extract_text (demo_env demo_reply) (demo_file ''photo.png'' [79, 75]))
       = ([ImageOpen [79, 75],
           ImageConvert \<lparr>mode = u ''P'', pixels = [79, 75]\<rparr> (u ''RGBA''),
           ImageConvert \<lparr>mode = u ''RGBA'', pixels = [79, 75]\<rparr> (u ''L''),
           ImageToString \<lparr>mode = u ''L'', pixels = [79, 75]\<rparr>],
          Inr (u ''OK''))
   \<and> filter is_ocr
         (fst (fst (load_and_extract_text (demo_env demo_reply)
                      (demo_file ''photo.png'' [79, 75]))))
       = [ImageToString \<lparr>mode = u ''L'', pixels = [79, 75]\<rparr>]"
proof -
  let ?env = "demo_env demo_reply"
  let ?f = "demo_file ''photo.png'' [79, 75]"
  let ?img = "\<lparr>mode = u ''P'', pixels = [79, 75]\<rparr>"
  have h1: "name ?f = Some (u ''photo.png'')"
    by (simp add: demo_file_def)
  have h2: "\<not> endswith (str_lower ?env (u ''photo.png'')) (u ''.pdf'')"
    by (simp add: demo_simps)
  have h3: "Image_open ?env (fst (read ?f)) = Inr ?img"
    by (simp add: demo_simps)
  have h4: "preprocess_image ?env ?img
              = ([ImageConvert ?img (u ''RGBA''),
                  ImageConvert \<lparr>mode = u ''RGBA'', pixels = [79, 75]\<rparr> (u ''L'')],
                 Inr \<lparr>mode = u ''L'', pixels = [79, 75]\<rparr>)"
    by (simp add: preprocess_image_def call_def ret_def demo_simps)
  have h5: "image_to_string ?env \<lparr>mode = u ''L'', pixels = [79, 75]\<rparr> = Inr (u ''OK'')"
    by (simp add: demo_simps)
  from image_upload_ocr_once [OF h1 h2 h3 h4 h5] h2 show ?thesis
    by (simp add: demo_file_def read_def)
qed


theorem extract_fields_returns_reply_object_witness:
  "json_loads (demo_env demo_reply) demo_reply = Inr demo_fields
   \<and> set (map fst [(u ''invoice_number'', JStr (u ''123'')), (u ''invoice_date'', JStr []),
            (u ''vendor_name'', JStr []), (u ''total_amount'', JStr (u ''$45.00'')),
            (u ''products'', JList [])]) = set invoice_keys
   \<and> snd (extract_fields_with_llm (demo_env demo_reply) (u ''Invoice #123, Total: $45.00''))
       = Inr demo_fields"
proof -
  let ?env = "demo_env demo_reply"
  let ?text = "u ''Invoice #123, Total: $45.00''"
  let ?c = "\<lparr>message = \<lparr>role = u ''assistant'', content = Some demo_reply\<rparr>\<rparr>"
  let ?kvs = "[(u ''invoice_number'', JStr (u ''123'')), (u ''invoice_date'', JStr []),
            (u ''vendor_name'', JStr []), (u ''total_amount'', JStr (u ''$45.00'')),
            (u ''products'', JList [])]"
  have h1: "chat_completions_create ?env (chat_request_of (build_prompt ?text))
              = Inr \<lparr>choices = [?c]\<rparr>"
    by (simp add: demo_env_def)
  have h2: "choices \<lparr>choices = [?c]\<rparr> = ?c # []"
    by simp
  have h3: "content (message ?c) = Some demo_reply"
    by simp
  have h4: "json_loads ?env demo_reply = Inr (JDict ?kvs)"
    by (simp add: demo_env_def demo_fields_def)
  have h5: "distinct (map fst ?kvs)"
    by (simp add: u_def)
  have h6: "set (map fst ?kvs) = set invoice_keys"
    by (simp add: invoice_keys_def)
  from extract_fields_returns_reply_object [OF h1 h2 h3 h4 h5 h6] h4 h6 show ?thesis
    by (simp add: demo_fields_def)
qed

theorem run_pipeline_propagates_errors_witness:
  "fst (load_and_extract_text (demo_env demo_reply) (demo_file ''photo.png'' []))
     = ([ImageOpen []], Inl (DecodeError (u ''cannot identify image file'')))
   \<and> fst (run_pipeline (demo_env demo_reply) (demo_file ''photo.png'' []))
     = ([ImageOpen []], Inl (DecodeError (u ''cannot identify image file'')))
   \<and> json_loads (demo_env (u ''Sorry, no invoice here.'')) (u ''Sorry, no invoice here.'')
     = Inl (JSONDecodeError (u ''Expecting value''))
   \<and> fst (run_pipeline (demo_env (u ''Sorry, no invoice here.''))
            (demo_file ''invoice.pdf'' [1, 2]))
     = ([FitzOpen [1, 2], GetText 1, GetText 2,
         ChatCreate (chat_request_of (build_prompt (u ''Invoice #123, Total: $45.00'')))],
        Inl (JSONDecodeError (u ''Expecting value'')))
   \<and> filter is_llm
         ([FitzOpen [1, 2], GetText 1, GetText 2]
          @ [ChatCreate (chat_request_of (build_prompt (u ''Invoice #123, Total: $45.00'')))
               :: nat event])
     = [ChatCreate (chat_request_of (build_prompt (u ''Invoice #123, Total: $45.00'')))]"
proof -
  let ?bad = "u ''Sorry, no invoice here.''"
  let ?text = "u ''Invoice #123, Total: $45.00''"
  let ?c = "\<lparr>message = \<lparr>role = u ''assistant'', content = Some ?bad\<rparr>\<rparr>"
  let ?call = "ChatCreate (chat_request_of (build_prompt ?text)) :: nat event"
  let ?e = "JSONDecodeError (u ''Expecting value'')"
  have a1: "fst (load_and_extract_text (demo_env demo_reply) (demo_file ''photo.png'' []))
              = ([ImageOpen []], Inl (DecodeError (u ''cannot identify image file'')))"
    by (simp add: load_and_extract_text_fst call_def demo_simps)
  have b1: "fst (load_and_extract_text (demo_env ?bad) (demo_file ''invoice.pdf'' [1, 2]))
              = ([FitzOpen [1, 2], GetText 1, GetText 2], Inr ?text)"
    by (simp add: load_and_extract_text_fst extract_text_from_pdf_def call_def ret_def
        demo_simps)
  have b2: "chat_completions_create (demo_env ?bad) (chat_request_of (build_prompt ?text))
              = Inr \<lparr>choices = [?c]\<rparr>"
    by (simp add: demo_env_def)
  have b3: "choices \<lparr>choices = [?c]\<rparr> = ?c # []"
    by simp
  have b4: "content (message ?c) = Some ?bad"
    by simp
  have b5: "json_loads (demo_env ?bad) ?bad = Inl ?e"
    by (simp add: demo_env_def demo_reply_def u_def)
  have b6: "extract_fields_with_llm (demo_env ?bad) ?text = ([?call], Inl ?e)"
    using b5 by (simp add: extract_fields_with_llm_def Let_def call_def demo_env_def)
  note A = run_pipeline_propagates_errors
    [of "demo_env demo_reply" "demo_file ''photo.png'' []" "[ImageOpen []]"
      "DecodeError (u ''cannot identify image file'')"]
  note B = run_pipeline_propagates_errors
    [of "demo_env ?bad" "demo_file ''invoice.pdf'' [1, 2]"
      "[FitzOpen [1, 2], GetText 1, GetText 2]" ?e ?text "[?call]" "Inl ?e"
      "\<lparr>choices = [?c]\<rparr>" ?c "[]" ?bad]
  have r1: "fst (run_pipeline (demo_env demo_reply) (demo_file ''photo.png'' []))
              = ([ImageOpen []], Inl (DecodeError (u ''cannot identify image file'')))"
    using A a1 by blast
  have r2: "fst (run_pipeline (demo_env ?bad) (demo_file ''invoice.pdf'' [1, 2]))
              = ([FitzOpen [1, 2], GetText 1, GetText 2] @ [?call], Inl ?e)"
    using B b1 b2 b3 b4 b5 by blast
  have r3: "filter is_llm ([FitzOpen [1, 2], GetText 1, GetText 2] @ [?call]) = [?call]"
    using B b1 b6 by blast
  from a1 r1 b5 r2 r3 show ?thesis
    by simp
qed

theorem path_chosen_by_suffix_ignoring_case_witness:
  "has_pdf_suffix (u ''scan.PDF'')
   \<and> fst (load_and_extract_text (demo_env demo_reply) (demo_file ''scan.PDF'' [72, 105]))
       = io_bind (extract_text_from_pdf (demo_env demo_reply) [72, 105])
           (\<lambda>extracted.
              if str_strip extracted \<noteq> [] then ret extracted
              else io_bind (call (ConvertFromBytes [72, 105])
                              (convert_from_bytes (demo_env demo_reply) [72, 105]))
                     (\<lambda>images. perform_ocr_on_images (demo_env demo_reply) images))
   \<and> filter is_image_open
         (fst (fst (load_and_extract_text (demo_env demo_reply)
                      (demo_file ''scan.PDF'' [72, 105])))) = []
   \<and> \<not> has_pdf_suffix (u ''notes.txt'')
   \<and> fst (load_and_extract_text (demo_env demo_reply) (demo_file ''notes.txt'' [79, 75]))
       = io_bind (call (ImageOpen [79, 75]) (Image_open (demo_env demo_reply) [79, 75]))
           (\<lambda>img. perform_ocr_on_images (demo_env demo_reply) [img])
   \<and> filter is_pdf_path
         (fst (fst (load_and_extract_text (demo_env demo_reply)
                      (demo_file ''notes.txt'' [79, 75])))) = []
   \<and> snd (fst (load_and_extract_text (demo_env demo_reply) (demo_file ''notes.txt'' [79, 75])))
       = Inr (u ''OK'')"
proof -
  let ?env = "demo_env demo_reply"
  have tbl: "\<forall>s i. i < length s \<and> 128 \<le> s ! i
               \<longrightarrow> unicode_lower ?env s i \<noteq> []
                   \<and> set (unicode_lower ?env s i) \<inter> set (u ''.pdf'') = {}"
    by (simp add: demo_env_def u_def)
  have n1: "name (demo_file ''scan.PDF'' [72, 105]) = Some (u ''scan.PDF'')"
    and n2: "name (demo_file ''notes.txt'' [79, 75]) = Some (u ''notes.txt'')"
    by (simp_all add: demo_file_def)
  have r1: "fst (read (demo_file ''scan.PDF'' [72, 105])) = [72, 105]"
    and r2: "fst (read (demo_file ''notes.txt'' [79, 75])) = [79, 75]"
    by (simp_all add: demo_file_def read_def)
  have h1: "has_pdf_suffix (u ''scan.PDF'')"
    by (simp add: has_pdf_suffix_def pdf_suffixes_def endswith_def u_def)
  have h2: "\<not> has_pdf_suffix (u ''notes.txt'')"
    by (simp add: has_pdf_suffix_def pdf_suffixes_def endswith_def u_def)
  note A = mp [OF conjunct1
    [OF path_chosen_by_suffix_ignoring_case [OF n1 tbl, unfolded r1]] h1]
  note B = mp [OF conjunct2
    [OF path_chosen_by_suffix_ignoring_case [OF n2 tbl, unfolded r2]] h2]
  have c: "snd (io_bind (call (ImageOpen [79, 75]) (Image_open ?env [79, 75]))
           (\<lambda>img. perform_ocr_on_images ?env [img])) = Inr (u ''OK'')"
    by (simp add: call_def perform_ocr_on_images_def preprocess_image_def ret_def demo_simps)
  have c': "snd (fst (load_and_extract_text ?env (demo_file ''notes.txt'' [79, 75])))
              = Inr (u ''OK'')"
    by (simp only: conjunct1 [OF B] c)
  show ?thesis
    by (intro conjI h1 h2 conjunct1 [OF A] conjunct2 [OF A] conjunct1 [OF B]
        conjunct2 [OF B] c')
qed

text \<open>
  Read by the letter, C7 sends every name that does not end in \<open>.pdf\<close> to the image
  path. The name \<open>scan.PDF\<close> does not end in \<open>.pdf\<close>, yet it is read as a PDF: its outcome
  differs from that of the same payload under the name \<open>scan.png\<close>, and \<open>Image.open\<close> is
  not called.
\<close>

theorem upper_case_pdf_not_image_path:
  "\<not> endswith (u ''scan.PDF'') (u ''.pdf'')
   \<and> fst (load_and_extract_text (demo_env demo_reply) (demo_file ''scan.PDF'' [72, 105]))
       \<noteq> fst (load_and_extract_text (demo_env demo_reply) (demo_file ''scan.png'' [72, 105]))
   \<and> fst (fst (load_and_extract_text (demo_env demo_reply) (demo_file ''scan.PDF'' [72, 105])))
       = [FitzOpen [72, 105], GetText 72, GetText 105, ConvertFromBytes [72, 105],
          ImageConvert \<lparr>mode = u ''P'', pixels = [72]\<rparr> (u ''RGBA''),
          ImageConvert \<lparr>mode = u ''RGBA'', pixels = [72]\<rparr> (u ''L''),
          ImageToString \<lparr>mode = u ''L'', pixels = [72]\<rparr>,
          ImageConvert \<lparr>mode = u ''RGB'', pixels = [105]\<rparr> (u ''L''),
          ImageToString \<lparr>mode = u ''L'', pixels = [105]\<rparr>]
   \<and> filter is_image_open
         (fst (fst (load_and_extract_text (demo_env demo_reply)
                      (demo_file ''scan.PDF'' [72, 105])))) = []
   \<and> fst (fst (load_and_extract_text (demo_env demo_reply) (demo_file ''scan.png'' [72, 105])))
       = [ImageOpen [72, 105],
          ImageConvert \<lparr>mode = u ''P'', pixels = [72, 105]\<rparr> (u ''RGBA''),
          ImageConvert \<lparr>mode = u ''RGBA'', pixels = [72, 105]\<rparr> (u ''L''),
          ImageToString \<lparr>mode = u ''L'', pixels = [72, 105]\<rparr>]"
proof -
  have a: "\<not> endswith (u ''scan.PDF'') (u ''.pdf'')"
    by (simp add: endswith_def u_def)
  have l: "fst (load_and_extract_text (demo_env demo_reply) (demo_file ''scan.PDF'' [72, 105]))
       = ([FitzOpen [72, 105], GetText 72, GetText 105, ConvertFromBytes [72, 105],
          ImageConvert \<lparr>mode = u ''P'', pixels = [72]\<rparr> (u ''RGBA''),
          ImageConvert \<lparr>mode = u ''RGBA'', pixels = [72]\<rparr> (u ''L''),
          ImageToString \<lparr>mode = u ''L'', pixels = [72]\<rparr>,
          ImageConvert \<lparr>mode = u ''RGB'', pixels = [105]\<rparr> (u ''L''),
          ImageToString \<lparr>mode = u ''L'', pixels = [105]\<rparr>], Inr (u ''H\<newline>i''))"
    by (simp add: load_and_extract_text_fst extract_text_from_pdf_def
        perform_ocr_on_images_def preprocess_image_def call_def ret_def demo_simps)
  have i: "fst (load_and_extract_text (demo_env demo_reply) (demo_file ''scan.png'' [72, 105]))
          = ([ImageOpen [72, 105],
              ImageConvert \<lparr>mode = u ''P'', pixels = [72, 105]\<rparr> (u ''RGBA''),
              ImageConvert \<lparr>mode = u ''RGBA'', pixels = [72, 105]\<rparr> (u ''L''),
              ImageToString \<lparr>mode = u ''L'', pixels = [72, 105]\<rparr>], Inr (u ''Hi''))"
    by (simp add: load_and_extract_text_fst perform_ocr_on_images_def preprocess_image_def
        call_def ret_def demo_simps)
  show ?thesis
    unfolding l i using a by simp
qed

theorem run_pipeline_with_bytes_same_as_run_pipeline_witness:
  "name (demo_file ''invoice.pdf'' [1, 2]) = Some (u ''invoice.pdf'')
   \<and> buffer (demo_file ''invoice.pdf'' [1, 2]) = [1, 2]
   \<and> pos (demo_file ''invoice.pdf'' [1, 2]) = 0
   \<and> run_pipeline_with_bytes (demo_env demo_reply) (u ''invoice.pdf'') [1, 2]
       = fst (run_pipeline (demo_env demo_reply) (demo_file ''invoice.pdf'' [1, 2]))
   \<and> snd (run_pipeline_with_bytes (demo_env demo_reply) (u ''invoice.pdf'') [1, 2])
       = Inr demo_fields"
proof -
  let ?f = "demo_file ''invoice.pdf'' [1, 2]"
  have h1: "name ?f = Some (u ''invoice.pdf'')"
    and h2: "buffer ?f = [1, 2]" and h3: "pos ?f = 0"
    by (simp_all add: demo_file_def)
  have l: "fst (load_and_extract_text (demo_env demo_reply) ?f)
              = ([FitzOpen [1, 2], GetText 1, GetText 2], Inr (u ''Invoice #123, Total: $45.00''))"
    by (simp add: load_and_extract_text_fst extract_text_from_pdf_def call_def ret_def
        demo_simps)
  have x: "snd (extract_fields_with_llm (demo_env demo_reply) t) = Inr demo_fields" for t
    by (simp add: extract_fields_with_llm_def Let_def call_def demo_env_def)
  have v: "snd (fst (run_pipeline (demo_env demo_reply) ?f)) = Inr demo_fields"
    by (simp add: run_pipeline_fst l x)
  from run_pipeline_with_bytes_same_as_run_pipeline [OF h1 h2 h3, of "demo_env demo_reply"]
    h1 h2 h3 v
  show ?thesis by simp
qed

theorem suffix_check_ignores_case_witness:
  "name (demo_file ''scan.PdF'' [72, 105])
     = Some (u ''scan'' @ [of_char CHR ''.'', of_char CHR ''P'', of_char CHR ''d'',
                          of_char CHR ''F''])
   \<and> fst (load_and_extract_text (demo_env demo_reply) (demo_file ''scan.PdF'' [72, 105]))
       = fst (load_and_extract_text (demo_env demo_reply) (demo_file ''scan.pdf'' [72, 105]))
   \<and> (\<exists>t r. fst (load_and_extract_text (demo_env demo_reply)
                   (demo_file ''scan.PdF'' [72, 105]))
          = (FitzOpen [72, 105] # t, r))"
proof -
  let ?f = "demo_file ''scan.PdF'' [72, 105]"
  have h1: "name ?f = Some (u ''scan'' @ [of_char CHR ''.'', of_char CHR ''P'',
                              of_char CHR ''d'', of_char CHR ''F''])"
    by (simp add: demo_file_def u_def)
  have h2: "of_char CHR ''P'' = (of_char CHR ''P'' :: nat) \<or> of_char CHR ''P'' = (of_char CHR ''p'' :: nat)"
    and h3: "of_char CHR ''d'' = (of_char CHR ''D'' :: nat) \<or> of_char CHR ''d'' = (of_char CHR ''d'' :: nat)"
    and h4: "of_char CHR ''F'' = (of_char CHR ''F'' :: nat) \<or> of_char CHR ''F'' = (of_char CHR ''f'' :: nat)"
    by simp_all
  have g: "?f\<lparr>name := Some (u ''scan'' @ u ''.pdf'')\<rparr> = demo_file ''scan.pdf'' [72, 105]"
    by (simp add: demo_file_def u_def)
  have r: "fst (read ?f) = [72, 105]"
    by (simp add: demo_file_def read_def)
  from suffix_check_ignores_case [OF h1 h2 h3 h4, of "demo_env demo_reply"] h1
  show ?thesis unfolding g r by blast
qed

end
